theory Spec2Isabelle
  imports Complex_Main "HOL-Library.Product_Lexorder"
begin

section \<open>Entities and the priority table (tagger.py, config.py)\<close>

text \<open>
  Python integers are unbounded, so offsets and priorities are \<open>int\<close>. The dataclass
  \<open>Entity\<close> has the fields start, end, tag_id, text and priority; \<open>end\<close> and
  \<open>text\<close> are reserved words here and carry a prime.
\<close>

record Entity =
  start :: int
  end' :: int
  tag_id :: string
  text' :: string
  priority :: int

text \<open>\<open>ENTITY_PRIORITIES\<close> of config.py, in the order the dict literal lists it.\<close>

definition ENTITY_PRIORITIES :: "(string \<times> int) list" where
  "ENTITY_PRIORITIES =
    [(''IncorporationDate'', 100),
     (''AddressOfRegisteredOfficeOfEntity'', 90),
     (''EntityPrimaryTradingSymbol'', 85),
     (''NameOfReportingEntityOrOtherMeansOfIdentification'', 80),
     (''Financial_Amount_Placeholder'', 70),
     (''Financial_Concept_Placeholder'', 60),
     (''Date_Placeholder'', 50)]"

text \<open>
  A subscript \<open>ENTITY_PRIORITIES[k]\<close>. Every key the extractors use is a literal that
  the table holds (lemma \<open>entity_priority_keys\<close>), so the KeyError branch of the
  subscript is never taken and is not threaded through the extractors.
\<close>

definition entity_priority :: "string \<Rightarrow> int" where
  "entity_priority k = the (map_of ENTITY_PRIORITIES k)"

section \<open>Overlap resolver (FinancialNoteTagger._remove_overlaps)\<close>

text \<open>The sort key \<open>(e.start, -e.priority, -(e.end - e.start))\<close>; tuples compare
  lexicographically.\<close>

definition overlap_key :: "Entity \<Rightarrow> int \<times> int \<times> int" where
  "overlap_key e = (start e, - priority e, - (end' e - start e))"

text \<open>The \<open>for\<close> loop over the sorted entities, with its two variables \<open>result\<close>
  and \<open>last_end\<close>.\<close>

fun overlap_scan :: "Entity list \<Rightarrow> int \<Rightarrow> Entity list \<Rightarrow> Entity list" where
  "overlap_scan result last_end [] = result"
| "overlap_scan result last_end (entity # rest) =
     (if start entity \<ge> last_end
      then overlap_scan (result @ [entity]) (end' entity) rest
      else overlap_scan result last_end rest)"

text \<open>\<open>sorted\<close> is stable, as \<open>sort_key\<close> is: entities with equal keys keep the
  order they had in the pool.\<close>

definition remove_overlaps :: "Entity list \<Rightarrow> Entity list" where
  "remove_overlaps entities =
     (if entities = [] then []
      else overlap_scan [] (- 1) (sort_key overlap_key entities))"

section \<open>The resolver as the specification words it\<close>

text \<open>
  Candidate \<open>a\<close> sorts no later than candidate \<open>b\<close>: start ascending, then priority
  descending, then span length descending.
\<close>

definition sorts_before :: "Entity \<Rightarrow> Entity \<Rightarrow> bool" where
  "sorts_before a b \<longleftrightarrow>
     start a < start b \<or>
     (start a = start b \<and>
       (priority a > priority b \<or>
        (priority a = priority b \<and> end' a - start a \<ge> end' b - start b)))"

fun spec_insert :: "Entity \<Rightarrow> Entity list \<Rightarrow> Entity list" where
  "spec_insert c [] = [c]"
| "spec_insert c (d # ds) =
     (if sorts_before c d then c # d # ds else d # spec_insert c ds)"

fun spec_sort :: "Entity list \<Rightarrow> Entity list" where
  "spec_sort [] = []"
| "spec_sort (c # cs) = spec_insert c (spec_sort cs)"

text \<open>One scan: accept a candidate iff its start is at least \<open>last_end\<close>, and then
  move \<open>last_end\<close> to its end.\<close>

fun spec_accept :: "int \<Rightarrow> Entity list \<Rightarrow> Entity list" where
  "spec_accept last_end [] = []"
| "spec_accept last_end (c # cs) =
     (if start c \<ge> last_end then c # spec_accept (end' c) cs
      else spec_accept last_end cs)"

definition spec_resolve :: "Entity list \<Rightarrow> Entity list" where
  "spec_resolve pool = spec_accept (- 1) (spec_sort pool)"

section \<open>Tag overlay (FinancialNoteTagger.tag_text)\<close>

text \<open>
  Python slices \<open>s[a:b]\<close> and \<open>s[a:]\<close>: a negative index counts from the end, and
  every index is clamped into \<open>0..len(s)\<close>; a slice whose bounds cross is empty.
\<close>

definition slice_index :: "'a list \<Rightarrow> int \<Rightarrow> nat" where
  "slice_index s i =
     (let n = int (length s)
      in if i < 0 then nat (max 0 (i + n)) else nat (min i n))"

definition slice :: "'a list \<Rightarrow> int \<Rightarrow> int \<Rightarrow> 'a list" where
  "slice s a b = take (slice_index s b - slice_index s a) (drop (slice_index s a) s)"

definition slice_from :: "'a list \<Rightarrow> int \<Rightarrow> 'a list" where
  "slice_from s a = drop (slice_index s a) s"

text \<open>
  \<open>tag_text\<close> collects strings in \<open>result\<close> and joins them. The model keeps each
  string with its kind: untagged text, or the text of an entity inside its tag markers;
  \<open>render\<close> gives the string the source appends.
\<close>

datatype piece = Plain string | Tagged string string

fun render :: "piece \<Rightarrow> string" where
  "render (Plain s) = s"
| "render (Tagged tid s) =
     ''<Tag id='' @ [CHR 0x22] @ tid @ [CHR 0x22] @ ''>'' @ s @ ''</Tag>''"

text \<open>The text a piece carries once its tag markers are removed.\<close>

fun piece_text :: "piece \<Rightarrow> string" where
  "piece_text (Plain s) = s"
| "piece_text (Tagged tid s) = s"

fun tag_loop :: "string \<Rightarrow> piece list \<Rightarrow> int \<Rightarrow> Entity list \<Rightarrow> piece list" where
  "tag_loop text result last_pos [] = result @ [Plain (slice_from text last_pos)]"
| "tag_loop text result last_pos (entity # rest) =
     tag_loop text
       (result @ [Plain (slice text last_pos (start entity)),
                  Tagged (tag_id entity) (text' entity)])
       (end' entity) rest"

definition tag_pieces :: "string \<Rightarrow> Entity list \<Rightarrow> piece list" where
  "tag_pieces text entities =
     (if entities = [] then [Plain text]
      else tag_loop text [] 0 (sort_key start entities))"

definition tag_text :: "string \<Rightarrow> Entity list \<Rightarrow> string" where
  "tag_text text entities = concat (map render (tag_pieces text entities))"

text \<open>A piece that stands inside tag markers, and the tagged piece \<open>tag_text\<close> writes
  for an entity.\<close>

fun is_tagged :: "piece \<Rightarrow> bool" where
  "is_tagged (Plain s) = False"
| "is_tagged (Tagged tid s) = True"

definition entity_piece :: "Entity \<Rightarrow> piece" where
  "entity_piece e = Tagged (tag_id e) (text' e)"

section \<open>Well-formed spans\<close>

text \<open>
  The data model of a span: \<open>0 \<le> start < end\<close>. Two spans do not overlap when one
  ends at or before the start of the other (touching is allowed).
\<close>

definition well_formed :: "Entity \<Rightarrow> bool" where
  "well_formed e \<longleftrightarrow> 0 \<le> start e \<and> start e < end' e"

definition no_overlap :: "Entity \<Rightarrow> Entity \<Rightarrow> bool" where
  "no_overlap a b \<longleftrightarrow> end' a \<le> start b \<or> end' b \<le> start a"

text \<open>Every two spans at different positions of the list do not overlap
  (\<open>no_overlap\<close> is symmetric; lemma \<open>non_overlapping_nth\<close>).\<close>

definition non_overlapping :: "Entity list \<Rightarrow> bool" where
  "non_overlapping es = sorted_wrt no_overlap es"

text \<open>Two candidates used below: a general date that starts first, and a company name
  of higher priority that starts inside it.\<close>

definition early_date :: Entity where
  "early_date = \<lparr>start = 0, end' = 10, tag_id = ''Date_Placeholder'',
     text' = ''March 2023'', priority = 50\<rparr>"

definition late_company :: Entity where
  "late_company = \<lparr>start = 6, end' = 24,
     tag_id = ''NameOfReportingEntityOrOtherMeansOfIdentification'',
     text' = ''2023 Holdings Ltd.'', priority = 80\<rparr>"

section \<open>Characters\<close>

text \<open>
  A text is a list of characters with code points below 256; \<open>ord\<close> is the code point.
  The classes are Python's on that range: \<open>str.isspace\<close> (also \<open>\s\<close> and what
  \<open>strip\<close> removes), the decimal digits \<open>\d\<close>, the ranges \<open>[A-Z]\<close> and \<open>[a-z]\<close>,
  \<open>str.isupper\<close> of one character, the word characters \<open>\w\<close> (alphanumeric or
  underscore), and \<open>str.lower\<close> of one character.
\<close>

definition ord :: "char \<Rightarrow> nat" where
  "ord c = of_char c"

definition is_space :: "char \<Rightarrow> bool" where
  "is_space c \<longleftrightarrow> (9 \<le> ord c \<and> ord c \<le> 13) \<or> (28 \<le> ord c \<and> ord c \<le> 32) \<or>
     ord c = 133 \<or> ord c = 160"

definition is_digit :: "char \<Rightarrow> bool" where
  "is_digit c \<longleftrightarrow> 48 \<le> ord c \<and> ord c \<le> 57"

definition is_AZ :: "char \<Rightarrow> bool" where
  "is_AZ c \<longleftrightarrow> 65 \<le> ord c \<and> ord c \<le> 90"

definition is_az :: "char \<Rightarrow> bool" where
  "is_az c \<longleftrightarrow> 97 \<le> ord c \<and> ord c \<le> 122"

definition isupper :: "char \<Rightarrow> bool" where
  "isupper c \<longleftrightarrow> is_AZ c \<or> (192 \<le> ord c \<and> ord c \<le> 214) \<or> (216 \<le> ord c \<and> ord c \<le> 222)"

definition is_word :: "char \<Rightarrow> bool" where
  "is_word c \<longleftrightarrow> is_digit c \<or> is_AZ c \<or> is_az c \<or> ord c = 95 \<or>
     ord c \<in> {170, 178, 179, 181, 185, 186, 188, 189, 190} \<or>
     (192 \<le> ord c \<and> ord c \<le> 214) \<or> (216 \<le> ord c \<and> ord c \<le> 246) \<or> 248 \<le> ord c"

definition lower_char :: "char \<Rightarrow> char" where
  "lower_char c = (if isupper c then char_of (ord c + 32) else c)"

section \<open>Regular expressions (Python's re, for the constructs the patterns use)\<close>

text \<open>
  A pattern is a class of one character, a sequence, an ordered alternative, a repetition
  (greedy or lazy, with a lower bound and an optional upper bound), group 1, the empty
  pattern, \<open>^\<close> or \<open>\b\<close>.
\<close>

datatype rx =
    Sym "char \<Rightarrow> bool"
  | Seq rx rx
  | Alt rx rx
  | Rep bool nat "nat option" rx
  | Grp rx
  | Eps
  | Bol
  | WordB

text \<open>A cursor into the text: the character before it (none at the start), the text
  that remains, the offset, and the span of group 1 once it has closed.\<close>

type_synonym cursor = "char option \<times> string \<times> nat \<times> (nat \<times> nat) option"

text \<open>
  The matcher backtracks as \<open>re\<close> does: \<open>rmatch r st\<close> lists every way \<open>r\<close> can match
  at the cursor, in the order \<open>re\<close> tries them, so that the head of the list is the match
  \<open>re\<close> reports. A greedy repetition tries one more round before it stops, a lazy one
  stops first. Every repeated pattern of config.py consumes a character in each round, so
  an unbounded repetition runs at most as many rounds as characters remain.
\<close>

fun rep :: "('s \<Rightarrow> 's list) \<Rightarrow> bool \<Rightarrow> nat \<Rightarrow> nat \<Rightarrow> 's \<Rightarrow> 's list" where
  "rep f greedy lo 0 st = (if lo = 0 then [st] else [])"
| "rep f greedy lo (Suc hi) st =
     (let more = concat (map (rep f greedy (lo - 1) hi) (f st));
          stop = (if lo = 0 then [st] else [])
      in if greedy then more @ stop else stop @ more)"

definition word_boundary :: "char option \<Rightarrow> string \<Rightarrow> bool" where
  "word_boundary prev s \<longleftrightarrow>
     (case prev of None \<Rightarrow> False | Some c \<Rightarrow> is_word c) \<noteq>
     (case s of [] \<Rightarrow> False | c # cs \<Rightarrow> is_word c)"

primrec rmatch :: "rx \<Rightarrow> cursor \<Rightarrow> cursor list" where
  "rmatch (Sym p) st =
     (case st of (prev, s, i, g) \<Rightarrow>
        (case s of [] \<Rightarrow> [] | c # cs \<Rightarrow> if p c then [(Some c, cs, Suc i, g)] else []))"
| "rmatch (Seq a b) st = concat (map (rmatch b) (rmatch a st))"
| "rmatch (Alt a b) st = rmatch a st @ rmatch b st"
| "rmatch (Rep greedy lo hi r) st =
     rep (rmatch r) greedy lo
       (case hi of None \<Rightarrow> length (fst (snd st)) | Some h \<Rightarrow> h) st"
| "rmatch (Grp r) st =
     map (\<lambda>(prev, s, j, g). (prev, s, j, Some (fst (snd (snd st)), j))) (rmatch r st)"
| "rmatch Eps st = [st]"
| "rmatch Bol st = (if fst (snd (snd st)) = 0 then [st] else [])"
| "rmatch WordB st = (if word_boundary (fst st) (fst (snd st)) then [st] else [])"

text \<open>A match object: \<open>start()\<close>, \<open>end()\<close> and the span of group 1.\<close>

record Match =
  m_start :: nat
  m_end :: nat
  m_group1 :: "(nat \<times> nat) option"

text \<open>
  \<open>re.match\<close> tries offset 0 only; \<open>re.search\<close> tries each offset from the left and
  returns the first match; \<open>re.finditer\<close> goes on after the end of each match (no pattern
  of the source matches the empty string).
\<close>

definition match_at :: "rx \<Rightarrow> char option \<Rightarrow> nat \<Rightarrow> string \<Rightarrow> Match option" where
  "match_at r prev i s =
     (case rmatch r (prev, s, i, None) of
        [] \<Rightarrow> None
      | (p, t, j, g) # _ \<Rightarrow> Some \<lparr>m_start = i, m_end = j, m_group1 = g\<rparr>)"

fun search_from :: "rx \<Rightarrow> char option \<Rightarrow> nat \<Rightarrow> string \<Rightarrow> Match option" where
  "search_from r prev i [] = match_at r prev i []"
| "search_from r prev i (c # cs) =
     (case match_at r prev i (c # cs) of
        None \<Rightarrow> search_from r (Some c) (Suc i) cs
      | Some m \<Rightarrow> Some m)"

definition re_search :: "rx \<Rightarrow> string \<Rightarrow> Match option" where
  "re_search r s = search_from r None 0 s"

definition re_match :: "rx \<Rightarrow> string \<Rightarrow> Match option" where
  "re_match r s = match_at r None 0 s"

fun finditer_from :: "rx \<Rightarrow> nat \<Rightarrow> char option \<Rightarrow> nat \<Rightarrow> string \<Rightarrow> Match list" where
  "finditer_from r pos prev i [] =
     (if i < pos then []
      else case match_at r prev i [] of None \<Rightarrow> [] | Some m \<Rightarrow> [m])"
| "finditer_from r pos prev i (c # cs) =
     (if i < pos then finditer_from r pos (Some c) (Suc i) cs
      else case match_at r prev i (c # cs) of
             None \<Rightarrow> finditer_from r pos (Some c) (Suc i) cs
           | Some m \<Rightarrow> m # finditer_from r (max (m_end m) (Suc i)) (Some c) (Suc i) cs)"

definition re_finditer :: "rx \<Rightarrow> string \<Rightarrow> Match list" where
  "re_finditer r s = finditer_from r 0 None 0 s"

text \<open>
  Pattern syntax: a literal character, a literal under \<open>re.IGNORECASE\<close>, a sequence, an
  alternation, literal strings, \<open>r+\<close> and \<open>r{lo,hi}\<close>.
\<close>

definition lit :: "char \<Rightarrow> rx" where
  "lit c = Sym (\<lambda>d. d = c)"

definition ilit :: "char \<Rightarrow> rx" where
  "ilit c = Sym (\<lambda>d. lower_char d = lower_char c)"

fun seq :: "rx list \<Rightarrow> rx" where
  "seq [] = Eps"
| "seq [r] = r"
| "seq (r # rs) = Seq r (seq rs)"

fun alts :: "rx list \<Rightarrow> rx" where
  "alts [] = Sym (\<lambda>d. False)"
| "alts [r] = r"
| "alts (r # rs) = Alt r (alts rs)"

definition str :: "string \<Rightarrow> rx" where
  "str cs = seq (map lit cs)"

definition istr :: "string \<Rightarrow> rx" where
  "istr cs = seq (map ilit cs)"

definition plus :: "rx \<Rightarrow> rx" where
  "plus r = Rep True 1 None r"

definition times :: "nat \<Rightarrow> nat \<Rightarrow> rx \<Rightarrow> rx" where
  "times lo hi r = Rep True lo (Some hi) r"

section \<open>The patterns of config.py\<close>

text \<open>
  The month alternation is not read as a group by any extractor. In
  \<open>TRADING_SYMBOL_PATTERN\<close> the classes \<open>["\u201C]\<close> and \<open>["\u201D]\<close> keep the
  straight quote only: the curly quotes have no code point below 256.
  \<open>COMPANY_START_PATTERN\<close> is the literal of \<open>_extract_company_names_regex\<close>,
  \<open>HEADER_PATTERN\<close> the one of \<open>is_header\<close>, and \<open>concept_pattern\<close> is
  \<open>r'\b' + re.escape(concept) + r'\b'\<close>, which \<open>_extract_financial_concepts\<close> matches
  under \<open>re.IGNORECASE\<close>, as \<open>INCORPORATION_CONTEXT\<close> is.
\<close>

definition month_names :: "string list" where
  "month_names = [''January'', ''February'', ''March'', ''April'', ''May'', ''June'', ''July'',
     ''August'', ''September'', ''October'', ''November'', ''December'']"

definition DATE_PATTERNS :: "rx list" where
  "DATE_PATTERNS =
     [seq [alts (map str month_names), plus (Sym is_space), times 1 2 (Sym is_digit),
           lit (CHR '',''), plus (Sym is_space), times 4 4 (Sym is_digit)],
      seq [alts (map str month_names), plus (Sym is_space), times 4 4 (Sym is_digit)],
      seq [WordB, alts [str ''19'', str ''20''], times 2 2 (Sym is_digit), WordB]]"

definition AMOUNT_PATTERN :: rx where
  "AMOUNT_PATTERN =
     seq [lit (CHR ''$''), times 1 3 (Sym is_digit),
          Rep True 0 None (seq [lit (CHR '',''), times 3 3 (Sym is_digit)]),
          times 0 1 (seq [lit (CHR ''.''), times 2 2 (Sym is_digit)])]"

definition ADDRESS_PATTERN :: rx where
  "ADDRESS_PATTERN =
     seq [plus (Sym is_digit), times 0 1 (alts [str ''st'', str ''nd'', str ''rd'', str ''th'']),
          plus (Sym is_space), str ''Floor,'', plus (Sym is_space), plus (Sym is_digit),
          plus (Sym is_space), plus (Sym (\<lambda>d. is_AZ d \<or> is_az d \<or> is_space d)),
          str ''Street,'', plus (Sym is_space),
          plus (Sym (\<lambda>d. is_AZ d \<or> is_az d \<or> is_space d \<or> d = CHR '','')),
          lit (CHR '',''), plus (Sym is_space),
          Sym is_AZ, Sym is_digit, Sym is_AZ, plus (Sym is_space),
          Sym is_digit, Sym is_AZ, Sym is_digit]"

definition TRADING_SYMBOL_PATTERN :: rx where
  "TRADING_SYMBOL_PATTERN =
     seq [str ''under the symbol'', plus (Sym is_space), lit (CHR 0x22),
          Grp (times 2 5 (Sym is_AZ)), lit (CHR 0x22)]"

definition INCORPORATION_CONTEXT :: rx where
  "INCORPORATION_CONTEXT =
     seq [istr ''was incorporated'', Rep False 0 None (Sym (\<lambda>d. d \<noteq> CHR 0x0A)), istr ''on'',
          plus (Sym is_space),
          Grp (seq [alts (map istr month_names), plus (Sym is_space), times 1 2 (Sym is_digit),
                    ilit (CHR '',''), plus (Sym is_space), times 4 4 (Sym is_digit)])]"

definition COMPANY_START_PATTERN :: rx where
  "COMPANY_START_PATTERN =
     seq [Bol, Grp (seq [Sym is_AZ, plus (Sym (\<lambda>d. is_az d \<or> is_AZ d)), plus (Sym is_space),
                          str ''Ltd.''])]"

definition HEADER_PATTERN :: rx where
  "HEADER_PATTERN = seq [Bol, plus (Sym is_digit), lit (CHR ''.'')]"

definition FINANCIAL_CONCEPTS :: "(string \<times> string) list" where
  "FINANCIAL_CONCEPTS =
     [(''working capital deficiency'', ''Financial_Concept_Placeholder''),
      (''accumulated deficit'', ''Financial_Concept_Placeholder''),
      (''loss'', ''Financial_Concept_Placeholder''),
      (''operating activities'', ''Financial_Concept_Placeholder'')]"

definition concept_pattern :: "string \<Rightarrow> rx" where
  "concept_pattern concept = seq [WordB, istr concept, WordB]"

definition TAG_IDS :: "(string \<times> string) list" where
  "TAG_IDS =
     [(''note_root'', ''NatureOfOperationsAndGoingConcernNote''),
      (''header'', ''NatureOfOperationsAndGoingConcernHeader''),
      (''operations_description'', ''DescriptionOfNatureOfEntitysOperationsAndPrincipalActivities''),
      (''going_concern_description'',
         ''DescriptionOfUncertaintiesOfEntitysAbilityToContinueAsGoingConcern''),
      (''company_name'', ''NameOfReportingEntityOrOtherMeansOfIdentification''),
      (''incorporation_date'', ''IncorporationDate''),
      (''address'', ''AddressOfRegisteredOfficeOfEntity''),
      (''trading_symbol'', ''EntityPrimaryTradingSymbol''),
      (''date'', ''Date_Placeholder''),
      (''financial_concept'', ''Financial_Concept_Placeholder''),
      (''financial_amount'', ''Financial_Amount_Placeholder'')]"

text \<open>A subscript \<open>TAG_IDS[k]\<close>, on keys the table holds.\<close>

definition tag_of :: "string \<Rightarrow> string" where
  "tag_of k = the (map_of TAG_IDS k)"

section \<open>Named-entity provider (ner_module.py)\<close>

text \<open>
  spaCy is outside the repository: \<open>nlp\<close> is the loaded model (none when spaCy or the
  model is missing), a function from a text to the entities of \<open>doc.ents\<close>, each with
  \<open>text\<close>, \<open>label_\<close> (here \<open>ent_label\<close>), \<open>start_char\<close> and \<open>end_char\<close>. The dataclass
  \<open>NEREntity\<close> has the fields text, label, start, end and a confidence that is always
  1.0 and never read.
\<close>

datatype error = AttributeError

record SpacyEnt =
  ent_text :: string
  ent_label :: string
  start_char :: int
  end_char :: int

record NEREntity =
  ner_text :: string
  label :: string
  ner_start :: int
  ner_end :: int

record FinancialNER =
  ner_use_ner :: bool
  nlp :: "(string \<Rightarrow> SpacyEnt list) option"

definition relevant_labels :: "string list" where
  "relevant_labels = [''ORG'', ''GPE'', ''LOC'', ''PERSON'', ''STOCK_SYMBOL'', ''FINANCIAL_CONCEPT'']"

definition ner_extract_entities :: "FinancialNER \<Rightarrow> string \<Rightarrow> NEREntity list" where
  "ner_extract_entities self text =
     (case nlp self of
        None \<Rightarrow> []
      | Some model \<Rightarrow>
          if \<not> ner_use_ner self then []
          else map (\<lambda>ent. \<lparr>ner_text = ent_text ent, label = ent_label ent,
                            ner_start = start_char ent, ner_end = end_char ent\<rparr>)
                 (filter (\<lambda>ent. ent_label ent \<in> set relevant_labels) (model text)))"

text \<open>
  \<open>extract_organizations\<close> filters with \<open>e.label_ == "ORG"\<close>, and a \<open>NEREntity\<close> has no
  attribute \<open>label_\<close>: the comprehension raises AttributeError at its first element, and
  returns the empty list only when there is none.
\<close>

definition extract_organizations :: "FinancialNER \<Rightarrow> string \<Rightarrow> error + NEREntity list" where
  "extract_organizations self text =
     (case ner_extract_entities self text of
        [] \<Rightarrow> Inr []
      | e # es \<Rightarrow> Inl AttributeError)"

definition is_available :: "FinancialNER \<Rightarrow> bool" where
  "is_available self \<longleftrightarrow> ner_use_ner self \<and> nlp self \<noteq> None"

section \<open>Span extractors (tagger.py)\<close>

text \<open>
  The tagger holds \<open>use_ner\<close> and the provider \<open>ner\<close> (\<open>None\<close> when \<open>use_ner\<close> is
  false). Its \<open>stats\<close> counters are only written by the extractors, never read by them,
  and are left out. An entity is built from a span of the match: \<open>group0\<close> is the whole
  match, \<open>group1\<close> the first group, which every pattern that uses it matches whenever the
  pattern matches.
\<close>

record FinancialNoteTagger =
  use_ner :: bool
  ner :: "FinancialNER option"

definition make_entity :: "string \<Rightarrow> nat \<times> nat \<Rightarrow> string \<Rightarrow> string \<Rightarrow> Entity" where
  "make_entity text sp tag_key priority_key =
     \<lparr>start = int (fst sp), end' = int (snd sp), tag_id = tag_of tag_key,
      text' = slice text (int (fst sp)) (int (snd sp)),
      priority = entity_priority priority_key\<rparr>"

definition group0 :: "Match \<Rightarrow> nat \<times> nat" where
  "group0 m = (m_start m, m_end m)"

definition group1 :: "Match \<Rightarrow> nat \<times> nat" where
  "group1 m = the (m_group1 m)"

definition extract_incorporation_dates :: "string \<Rightarrow> Entity list" where
  "extract_incorporation_dates text =
     (case re_search INCORPORATION_CONTEXT text of
        None \<Rightarrow> []
      | Some m \<Rightarrow> [make_entity text (group1 m) ''incorporation_date'' ''IncorporationDate''])"

definition extract_addresses :: "string \<Rightarrow> Entity list" where
  "extract_addresses text =
     map (\<lambda>m. make_entity text (group0 m) ''address'' ''AddressOfRegisteredOfficeOfEntity'')
       (re_finditer ADDRESS_PATTERN text)"

definition extract_trading_symbols :: "string \<Rightarrow> Entity list" where
  "extract_trading_symbols text =
     map (\<lambda>m. make_entity text (group1 m) ''trading_symbol'' ''EntityPrimaryTradingSymbol'')
       (re_finditer TRADING_SYMBOL_PATTERN text)"

text \<open>\<open>needle in haystack\<close> on strings.\<close>

fun starts_with :: "string \<Rightarrow> string \<Rightarrow> bool" where
  "starts_with [] s = True"
| "starts_with (a # as) [] = False"
| "starts_with (a # as) (c # cs) = (a = c \<and> starts_with as cs)"

fun contains :: "string \<Rightarrow> string \<Rightarrow> bool" where
  "contains needle [] = (needle = [])"
| "contains needle (c # cs) = (starts_with needle (c # cs) \<or> contains needle cs)"

definition company_suffixes :: "string list" where
  "company_suffixes = [''Ltd.'', ''Inc.'', ''Corp.'', ''Limited'', ''Corporation'']"

definition extract_company_names_ner ::
  "FinancialNoteTagger \<Rightarrow> string \<Rightarrow> error + Entity list" where
  "extract_company_names_ner self text =
     (case ner self of
        None \<Rightarrow> Inr []
      | Some provider \<Rightarrow>
          if \<not> is_available provider then Inr []
          else case extract_organizations provider text of
                 Inl e \<Rightarrow> Inl e
               | Inr orgs \<Rightarrow>
                   Inr (map (\<lambda>org. \<lparr>start = ner_start org, end' = ner_end org,
                                     tag_id = tag_of ''company_name'', text' = ner_text org,
                                     priority = entity_priority
                                       ''NameOfReportingEntityOrOtherMeansOfIdentification''\<rparr>)
                          (filter (\<lambda>org. \<exists>suffix\<in>set company_suffixes.
                                     contains suffix (ner_text org)) orgs)))"

definition extract_company_names_regex :: "string \<Rightarrow> Entity list" where
  "extract_company_names_regex text =
     (case re_match COMPANY_START_PATTERN text of
        None \<Rightarrow> []
      | Some m \<Rightarrow> [make_entity text (group1 m) ''company_name''
                      ''NameOfReportingEntityOrOtherMeansOfIdentification''])"

definition extract_company_names_hybrid ::
  "FinancialNoteTagger \<Rightarrow> string \<Rightarrow> error + Entity list" where
  "extract_company_names_hybrid self text =
     (case (if use_ner self \<and> (case ner self of None \<Rightarrow> False | Some p \<Rightarrow> is_available p)
            then extract_company_names_ner self text else Inr []) of
        Inl e \<Rightarrow> Inl e
      | Inr ner_entities \<Rightarrow> Inr (ner_entities @ extract_company_names_regex text))"

definition extract_amounts :: "string \<Rightarrow> Entity list" where
  "extract_amounts text =
     map (\<lambda>m. make_entity text (group0 m) ''financial_amount'' ''Financial_Amount_Placeholder'')
       (re_finditer AMOUNT_PATTERN text)"

definition extract_financial_concepts :: "string \<Rightarrow> Entity list" where
  "extract_financial_concepts text =
     concat (map (\<lambda>(concept, tid).
         map (\<lambda>m. make_entity text (group0 m) ''financial_concept''
                    ''Financial_Concept_Placeholder'')
           (re_finditer (concept_pattern concept) text))
       FINANCIAL_CONCEPTS)"

definition extract_dates :: "string \<Rightarrow> Entity list" where
  "extract_dates text =
     concat (map (\<lambda>pattern.
         map (\<lambda>m. make_entity text (group0 m) ''date'' ''Date_Placeholder'')
           (re_finditer pattern text))
       DATE_PATTERNS)"

definition extract_entities :: "FinancialNoteTagger \<Rightarrow> string \<Rightarrow> error + Entity list" where
  "extract_entities self text =
     (case extract_company_names_hybrid self text of
        Inl e \<Rightarrow> Inl e
      | Inr companies \<Rightarrow>
          Inr (sort_key start (remove_overlaps
            (extract_incorporation_dates text @ extract_addresses text @
             extract_trading_symbols text @ companies @ extract_amounts text @
             extract_financial_concepts text @ extract_dates text))))"

section \<open>Header rule and subsection segmenter\<close>

text \<open>
  \<open>str.strip\<close>, \<open>str.lower\<close>, and \<open>text.split('.', 1)[1]\<close>, read only when the text holds
  a dot. The ratio is a quotient of two lengths; the model keeps it exact, and the
  float of the source compares with 0.5 the same way for every text shorter than
  \<open>2^52\<close> characters.
\<close>

definition strip :: "string \<Rightarrow> string" where
  "strip s = rev (dropWhile is_space (rev (dropWhile is_space s)))"

definition lower :: "string \<Rightarrow> string" where
  "lower s = map lower_char s"

definition after_first_dot :: "string \<Rightarrow> string" where
  "after_first_dot s = tl (dropWhile (\<lambda>c. c \<noteq> CHR ''.'') s)"

definition uppercase_ratio :: "string \<Rightarrow> rat" where
  "uppercase_ratio content =
     of_nat (length (filter isupper content)) / of_nat (max (length content) 1)"

definition is_header :: "string \<Rightarrow> bool" where
  "is_header paragraph_text =
     (let text = strip paragraph_text
      in if re_match HEADER_PATTERN text = None then False
         else let content = (if CHR ''.'' \<in> set text then strip (after_first_dot text)
                             else text)
              in uppercase_ratio content > 1 / 2)"

text \<open>
  A paragraph is a dict with \<open>text\<close> and \<open>block_index\<close>; a subsection is a dict with
  \<open>tag_id\<close>, \<open>paragraphs\<close> and, for a header only, \<open>skip_tagging\<close> (\<open>None\<close> when the
  key is absent). The loop of \<open>detect_subsections\<close> carries \<open>subsections\<close> and
  \<open>current_section\<close>.
\<close>

record Paragraph =
  para_text :: string
  block_index :: string

record Subsection =
  sub_tag_id :: string
  paragraphs :: "Paragraph list"
  skip_tagging :: "bool option"

definition close_section :: "Subsection list \<Rightarrow> Subsection option \<Rightarrow> Subsection list" where
  "close_section subsections current_section =
     (case current_section of None \<Rightarrow> subsections | Some c \<Rightarrow> subsections @ [c])"

definition header_section :: "Paragraph \<Rightarrow> Subsection" where
  "header_section para =
     \<lparr>sub_tag_id = tag_of ''header'', paragraphs = [para], skip_tagging = Some True\<rparr>"

definition should_start_going_concern :: "string \<Rightarrow> bool" where
  "should_start_going_concern text \<longleftrightarrow>
     contains ''going concern'' (lower text) \<or>
     contains ''material uncertainty'' (lower text) \<or>
     contains ''These consolidated financial statements'' text"

fun detect_loop ::
  "Subsection list \<Rightarrow> Subsection option \<Rightarrow> Paragraph list \<Rightarrow> Subsection list" where
  "detect_loop subsections current_section [] = close_section subsections current_section"
| "detect_loop subsections current_section (para # rest) =
     (if is_header (para_text para)
      then detect_loop (close_section subsections current_section @ [header_section para])
             None rest
      else if should_start_going_concern (para_text para) \<and>
              (case current_section of
                 None \<Rightarrow> True
               | Some c \<Rightarrow> sub_tag_id c \<noteq> tag_of ''going_concern_description'')
      then detect_loop (close_section subsections current_section)
             (Some \<lparr>sub_tag_id = tag_of ''going_concern_description'', paragraphs = [para],
                    skip_tagging = None\<rparr>) rest
      else case current_section of
             None \<Rightarrow>
               detect_loop subsections
                 (Some \<lparr>sub_tag_id = tag_of ''operations_description'', paragraphs = [para],
                        skip_tagging = None\<rparr>) rest
           | Some c \<Rightarrow>
               detect_loop subsections (Some (c\<lparr>paragraphs := paragraphs c @ [para]\<rparr>)) rest)"

definition detect_subsections :: "Paragraph list \<Rightarrow> Subsection list" where
  "detect_subsections ps = detect_loop [] None ps"

section \<open>Notions used in the statements and proofs\<close>

text \<open>The header rule as the specification words it: the trimmed text is a non-empty run
  of digits, a dot, and a content that, trimmed, has more than half of its characters in
  upper case.\<close>

definition header_spec :: "string \<Rightarrow> bool" where
  "header_spec paragraph_text \<longleftrightarrow>
     (\<exists>ds rest. strip paragraph_text = ds @ CHR ''.'' # rest \<and> ds \<noteq> [] \<and>
        (\<forall>d\<in>set ds. is_digit d) \<and>
        2 * length (filter isupper (strip rest)) > length (strip rest))"

text \<open>The cursor after \<open>k\<close> more characters.\<close>

definition advance :: "nat \<Rightarrow> cursor \<Rightarrow> cursor" where
  "advance k st =
     (case st of (prev, s, i, g) \<Rightarrow>
        ((if k = 0 then prev else Some (s ! (k - 1))), drop k s, i + k, g))"




text \<open>The segmenter, one paragraph at a time: the section that is open afterwards, and
  the subsections the paragraph closes.\<close>

definition gc_start :: "Subsection option \<Rightarrow> string \<Rightarrow> bool" where
  "gc_start cur text \<longleftrightarrow>
     should_start_going_concern text \<and>
     (case cur of None \<Rightarrow> True
      | Some c \<Rightarrow> sub_tag_id c \<noteq> tag_of ''going_concern_description'')"

definition going_concern_section :: "Paragraph \<Rightarrow> Subsection" where
  "going_concern_section para =
     \<lparr>sub_tag_id = tag_of ''going_concern_description'', paragraphs = [para],
      skip_tagging = None\<rparr>"

definition operations_section :: "Paragraph \<Rightarrow> Subsection" where
  "operations_section para =
     \<lparr>sub_tag_id = tag_of ''operations_description'', paragraphs = [para],
      skip_tagging = None\<rparr>"

definition open_paragraphs :: "Subsection option \<Rightarrow> Paragraph list" where
  "open_paragraphs cur = (case cur of None \<Rightarrow> [] | Some c \<Rightarrow> paragraphs c)"

definition next_section :: "Subsection option \<Rightarrow> Paragraph \<Rightarrow> Subsection option" where
  "next_section cur para =
     (if is_header (para_text para) then None
      else if gc_start cur (para_text para) then Some (going_concern_section para)
      else case cur of
             None \<Rightarrow> Some (operations_section para)
           | Some c \<Rightarrow> Some (c\<lparr>paragraphs := paragraphs c @ [para]\<rparr>))"

definition emitted :: "Subsection option \<Rightarrow> Paragraph \<Rightarrow> Subsection list" where
  "emitted cur para =
     (if is_header (para_text para) then close_section [] cur @ [header_section para]
      else if gc_start cur (para_text para) then close_section [] cur
      else [])"

definition section_nonempty :: "Subsection option \<Rightarrow> bool" where
  "section_nonempty cur = (case cur of None \<Rightarrow> True | Some c \<Rightarrow> paragraphs c \<noteq> [])"

section \<open>Inputs of the scenarios\<close>

text \<open>A tagger whose provider has no model (spaCy or its model missing), the text of
  scenario 1, a provider whose model finds the organisation at the start of a paragraph,
  and three paragraphs of a note.\<close>

definition fallback_tagger :: FinancialNoteTagger where
  "fallback_tagger = \<lparr>use_ner = True, ner = Some \<lparr>ner_use_ner = False, nlp = None\<rparr>\<rparr>"

definition scenario_1 :: string where
  "scenario_1 = ''incorporated on January 24, 2011 in the year 2011''"

definition bestco_model :: "string \<Rightarrow> SpacyEnt list" where
  "bestco_model text =
     (if starts_with ''BestCo Ltd.'' text
      then [\<lparr>ent_text = ''BestCo Ltd.'', ent_label = ''ORG'', start_char = 0, end_char = 11\<rparr>]
      else [])"

definition bestco_ner :: FinancialNER where
  "bestco_ner = \<lparr>ner_use_ner = True, nlp = Some bestco_model\<rparr>"


definition header_para :: Paragraph where
  "header_para = \<lparr>para_text = ''1. NATURE OF OPERATIONS'', block_index = ''1''\<rparr>"

definition company_para :: Paragraph where
  "company_para = \<lparr>para_text = ''BestCo Ltd. was incorporated in 2011.'', block_index = ''2''\<rparr>"

definition uncertainty_para :: Paragraph where
  "uncertainty_para = \<lparr>para_text = ''There is a material uncertainty.'', block_index = ''3''\<rparr>"

section \<open>Candidates of the examples\<close>


definition blocker :: Entity where
  "blocker = \<lparr>start = 0, end' = 5, tag_id = ''Date_Placeholder'',
     text' = ''March'', priority = 50\<rparr>"

definition blocked_high :: Entity where
  "blocked_high = \<lparr>start = 3, end' = 10, tag_id = ''IncorporationDate'',
     text' = ''ch 2023'', priority = 100\<rparr>"

definition kept_low :: Entity where
  "kept_low = \<lparr>start = 6, end' = 12, tag_id = ''Financial_Concept_Placeholder'',
     text' = ''2023 H'', priority = 60\<rparr>"

section \<open>Properties of the overlap resolver\<close>

lemma overlap_scan_accept:
  "overlap_scan result last_end es = result @ spec_accept last_end es"
  by (induction es arbitrary: result last_end) auto

lemma insort_spec_insert: "insort_key overlap_key c ds = spec_insert c ds"
  by (induction ds) (auto simp: overlap_key_def sorts_before_def)

lemma sort_key_spec_sort: "sort_key overlap_key es = spec_sort es"
  by (induction es) (simp_all add: insort_spec_insert)

lemma remove_overlaps_accept:
  "remove_overlaps pool = spec_accept (- 1) (sort_key overlap_key pool)"
  by (simp add: remove_overlaps_def overlap_scan_accept)

lemma set_spec_accept: "set (spec_accept last_end es) \<subseteq> set es"
  by (induction es arbitrary: last_end) auto

lemma spec_accept_chain:
  "\<forall>e\<in>set es. start e < end' e \<Longrightarrow>
   sorted_wrt (\<lambda>a b. end' a \<le> start b) (spec_accept last_end es) \<and>
   (\<forall>x\<in>set (spec_accept last_end es). last_end \<le> start x)"
proof (induction es arbitrary: last_end)
  case Nil
  then show ?case by simp
next
  case (Cons c cs)
  have wf: "\<forall>e\<in>set cs. start e < end' e" and c: "start c < end' c"
    using Cons.prems by auto
  show ?case
  proof (cases "last_end \<le> start c")
    case True
    from Cons.IH [OF wf, of "end' c"] c True show ?thesis by force
  next
    case False
    from Cons.IH [OF wf, of last_end] False show ?thesis by simp
  qed
qed

lemma remove_overlaps_chain:
  assumes "\<forall>e\<in>set pool. start e < end' e"
  shows "sorted_wrt (\<lambda>a b. end' a \<le> start b) (remove_overlaps pool)"
  using spec_accept_chain [of "sort_key overlap_key pool" "- 1"] assms
  by (simp add: remove_overlaps_accept)


lemma non_overlapping_nth:
  "non_overlapping es \<longleftrightarrow>
   (\<forall>i<length es. \<forall>j<length es. i \<noteq> j \<longrightarrow> no_overlap (es ! i) (es ! j))"
proof
  assume h: "non_overlapping es"
  show "\<forall>i<length es. \<forall>j<length es. i \<noteq> j \<longrightarrow> no_overlap (es ! i) (es ! j)"
  proof (intro allI impI)
    fix i j assume ij: "i < length es" "j < length es" "i \<noteq> j"
    show "no_overlap (es ! i) (es ! j)"
    proof (cases "i < j")
      case True
      with h ij show ?thesis
        unfolding non_overlapping_def by (simp add: sorted_wrt_iff_nth_less)
    next
      case False
      with ij have "j < i" by simp
      with h ij have "no_overlap (es ! j) (es ! i)"
        unfolding non_overlapping_def by (simp add: sorted_wrt_iff_nth_less)
      then show ?thesis by (auto simp: no_overlap_def)
    qed
  qed
next
  assume "\<forall>i<length es. \<forall>j<length es. i \<noteq> j \<longrightarrow> no_overlap (es ! i) (es ! j)"
  then show "non_overlapping es"
    unfolding non_overlapping_def by (simp add: sorted_wrt_iff_nth_less)
qed

text \<open>
  C2. For every candidate pool whose spans satisfy \<open>0 \<le> start < end\<close>, however they
  overlap, any two spans of the resolver's output do not overlap (one ends at or before
  the start of the other), and the output is sorted by start.
\<close>

theorem remove_overlaps_non_overlapping:
  assumes "\<forall>e\<in>set pool. well_formed e"
  shows "non_overlapping (remove_overlaps pool) \<and>
         sorted (map start (remove_overlaps pool))"
proof -
  let ?out = "remove_overlaps pool"
  have wf: "\<forall>e\<in>set pool. start e < end' e" using assms by (simp add: well_formed_def)
  have chain: "sorted_wrt (\<lambda>a b. end' a \<le> start b) ?out"
    by (rule remove_overlaps_chain [OF wf])
  have sub: "set ?out \<subseteq> set pool"
    using set_spec_accept [of "- 1" "sort_key overlap_key pool"]
    by (simp add: remove_overlaps_accept)
  have 1: "sorted_wrt no_overlap ?out"
    by (rule sorted_wrt_mono_rel [OF _ chain]) (simp add: no_overlap_def)
  have "sorted_wrt (\<lambda>a b. start a \<le> start b) ?out"
  proof (rule sorted_wrt_mono_rel [OF _ chain])
    fix a b assume "a \<in> set ?out" "b \<in> set ?out" "end' a \<le> start b"
    with sub wf show "start a \<le> start b" by force
  qed
  then have 2: "sorted (map start ?out)" by (simp add: sorted_map)
  from 1 2 show ?thesis by (simp add: non_overlapping_def)
qed

theorem remove_overlaps_non_overlapping_witness:
  "non_overlapping (remove_overlaps [late_company, early_date]) \<and>
   sorted (map start (remove_overlaps [late_company, early_date])) \<and>
   remove_overlaps [late_company, early_date] = [early_date]"
proof -
  have wf: "\<forall>e\<in>set [late_company, early_date]. well_formed e"
    by (simp add: well_formed_def late_company_def early_date_def)
  have "remove_overlaps [late_company, early_date] = [early_date]"
    by (simp add: remove_overlaps_def overlap_key_def late_company_def early_date_def)
  with remove_overlaps_non_overlapping [OF wf] show ?thesis by simp
qed

lemma entity_priority_keys:
  "map_of ENTITY_PRIORITIES ''IncorporationDate'' = Some 100"
  "map_of ENTITY_PRIORITIES ''AddressOfRegisteredOfficeOfEntity'' = Some 90"
  "map_of ENTITY_PRIORITIES ''EntityPrimaryTradingSymbol'' = Some 85"
  "map_of ENTITY_PRIORITIES ''NameOfReportingEntityOrOtherMeansOfIdentification'' = Some 80"
  "map_of ENTITY_PRIORITIES ''Financial_Amount_Placeholder'' = Some 70"
  "map_of ENTITY_PRIORITIES ''Financial_Concept_Placeholder'' = Some 60"
  "map_of ENTITY_PRIORITIES ''Date_Placeholder'' = Some 50"
  by (simp_all add: ENTITY_PRIORITIES_def)

text \<open>
  C3. For every candidate pool the resolver's output equals the result of sorting the
  candidates by (start ascending, priority descending, span length descending) and
  scanning once from \<open>last_end = -1\<close>, accepting a candidate iff its start is at least
  \<open>last_end\<close> and then setting \<open>last_end\<close> to its end; and the priority table ranks
  incorporation date > address > trading symbol > company name > amount > concept >
  general date.
\<close>

theorem remove_overlaps_refines_spec:
  "remove_overlaps pool = spec_resolve pool \<and>
   entity_priority ''IncorporationDate'' > entity_priority ''AddressOfRegisteredOfficeOfEntity'' \<and>
   entity_priority ''AddressOfRegisteredOfficeOfEntity'' > entity_priority ''EntityPrimaryTradingSymbol'' \<and>
   entity_priority ''EntityPrimaryTradingSymbol'' >
     entity_priority ''NameOfReportingEntityOrOtherMeansOfIdentification'' \<and>
   entity_priority ''NameOfReportingEntityOrOtherMeansOfIdentification'' >
     entity_priority ''Financial_Amount_Placeholder'' \<and>
   entity_priority ''Financial_Amount_Placeholder'' > entity_priority ''Financial_Concept_Placeholder'' \<and>
   entity_priority ''Financial_Concept_Placeholder'' > entity_priority ''Date_Placeholder''"
proof -
  have "remove_overlaps pool = spec_resolve pool"
    by (simp add: remove_overlaps_accept spec_resolve_def sort_key_spec_sort)
  then show ?thesis
    by (simp add: entity_priority_def entity_priority_keys)
qed









text \<open>
  The restriction to a higher-priority candidate that starts no later is not enough in a
  larger pool: a first span that is kept can block the higher-priority candidate and end
  before the lower-priority one starts, which is then kept.
\<close>

lemma blocked_higher_priority_example:
  "remove_overlaps [blocker, blocked_high, kept_low] = [blocker, kept_low] \<and>
   start blocked_high \<le> start kept_low \<and> start kept_low < end' blocked_high \<and>
   priority kept_low < priority blocked_high"
  by (simp add: remove_overlaps_def overlap_key_def blocker_def blocked_high_def kept_low_def)



section \<open>Properties of the tag overlay\<close>

lemma slice_index_nonneg: "0 \<le> i \<Longrightarrow> slice_index s i = min (nat i) (length s)"
  unfolding slice_index_def Let_def by (simp add: min_def) linarith

lemma slice_index_mono: "0 \<le> a \<Longrightarrow> a \<le> b \<Longrightarrow> slice_index s a \<le> slice_index s b"
  by (simp add: slice_index_nonneg min_def) linarith

lemma slice_from_zero: "slice_from s 0 = s"
  by (simp add: slice_from_def slice_index_def)

lemma slice_append_slice_from:
  assumes "0 \<le> a" and "a \<le> b"
  shows "slice s a b @ slice_from s b = slice_from s a"
proof -
  define A where "A = slice_index s a"
  define B where "B = slice_index s b"
  define t where "t = drop A s"
  have le: "A \<le> B" unfolding A_def B_def by (rule slice_index_mono [OF assms])
  have "drop B s = drop (B - A) t" unfolding t_def using le by simp
  moreover have "take (B - A) t @ drop (B - A) t = t" by (rule append_take_drop_id)
  ultimately have "take (B - A) t @ drop B s = t" by simp
  then show ?thesis
    unfolding slice_def slice_from_def A_def B_def t_def .
qed

lemma tag_loop_stream:
  assumes "sorted_wrt (\<lambda>a b. end' a \<le> start b) es"
    and "\<forall>e\<in>set es. last_pos \<le> start e \<and> start e < end' e \<and>
           text' e = slice text (start e) (end' e)"
    and "0 \<le> last_pos"
  shows "concat (map piece_text (tag_loop text result last_pos es)) =
         concat (map piece_text result) @ slice_from text last_pos"
  using assms
proof (induction es arbitrary: result last_pos)
  case Nil
  then show ?case by simp
next
  case (Cons e es)
  have e: "last_pos \<le> start e" "start e < end' e" "text' e = slice text (start e) (end' e)"
    using Cons.prems(2) by auto
  have chain: "sorted_wrt (\<lambda>a b. end' a \<le> start b) es"
    and after: "\<forall>x\<in>set es. end' e \<le> start x"
    using Cons.prems(1) by auto
  have rest: "\<forall>x\<in>set es. end' e \<le> start x \<and> start x < end' x \<and>
           text' x = slice text (start x) (end' x)"
    using after Cons.prems(2) by auto
  have pos: "0 \<le> end' e" using e Cons.prems(3) by linarith
  have s0: "0 \<le> start e" using e Cons.prems(3) by linarith
  have "slice text last_pos (start e) @ slice text (start e) (end' e) @ slice_from text (end' e)
        = slice_from text last_pos"
    using slice_append_slice_from [of "start e" "end' e" "text"]
          slice_append_slice_from [of last_pos "start e" "text"] e s0 Cons.prems(3)
    by simp
  with Cons.IH [OF chain rest pos] e show ?case by simp
qed

lemma tag_loop_tagged:
  "filter is_tagged (tag_loop text result last_pos es) =
   filter is_tagged result @ map entity_piece es"
  by (induction es arbitrary: result last_pos) (simp_all add: entity_piece_def)

lemma chain_of_sorted_no_overlap:
  assumes "sorted (map start es)" and "sorted_wrt no_overlap es"
    and "\<forall>e\<in>set es. start e < end' e"
  shows "sorted_wrt (\<lambda>a b. end' a \<le> start b) es"
  using assms
proof (induction es)
  case Nil
  then show ?case by simp
next
  case (Cons e es)
  have "\<forall>x\<in>set es. end' e \<le> start x"
  proof
    fix x assume x: "x \<in> set es"
    with Cons.prems have "start e \<le> start x" "no_overlap e x" "start x < end' x"
      by auto
    then show "end' e \<le> start x" by (auto simp: no_overlap_def)
  qed
  with Cons show ?case by simp
qed


text \<open>
  C1. For every paragraph text and every list of spans (\<open>0 \<le> start < end\<close>, as the data
  model has them) that is sorted by start, pairwise non-overlapping, and in which each
  span's text field equals \<open>text[start:end]\<close>: the string \<open>tag_text\<close> returns is the
  concatenation of a sequence of pieces, untagged text and tagged inner texts in their
  markers, whose tagged pieces are the spans in order and whose texts, the tag markers
  removed, concatenate to the original text; and with an empty span list \<open>tag_text\<close>
  returns the text unchanged.
\<close>

theorem tag_text_round_trip:
  assumes "sorted (map start spans)" and "non_overlapping spans"
    and "\<forall>e\<in>set spans. well_formed e \<and> text' e = slice text (start e) (end' e)"
  shows "(\<exists>ps. tag_text text spans = concat (map render ps) \<and>
              concat (map piece_text ps) = text \<and>
              filter is_tagged ps = map entity_piece spans) \<and>
         tag_text text [] = text"
proof -
  have wf: "\<forall>e\<in>set spans. start e < end' e" using assms(3) by (simp add: well_formed_def)
  have chain: "sorted_wrt (\<lambda>a b. end' a \<le> start b) spans"
    by (rule chain_of_sorted_no_overlap [OF assms(1) assms(2) [unfolded non_overlapping_def] wf])
  have each: "\<forall>e\<in>set spans. 0 \<le> start e \<and> start e < end' e \<and>
           text' e = slice text (start e) (end' e)"
    using assms(3) by (simp add: well_formed_def)
  have srt: "sort_key start spans = spans"
    using assms(1) by (rule sort_key_id_if_sorted)
  have loop: "concat (map piece_text (tag_loop text [] 0 spans)) = text"
    using tag_loop_stream [OF chain each, of "[]"] by (simp add: slice_from_zero)
  have 1: "tag_text text spans = concat (map render (tag_pieces text spans))"
    by (simp add: tag_text_def)
  have 2: "concat (map piece_text (tag_pieces text spans)) = text"
    using loop by (simp add: tag_pieces_def srt)
  have 3: "filter is_tagged (tag_pieces text spans) = map entity_piece spans"
    by (simp add: tag_pieces_def srt tag_loop_tagged)
  have 4: "tag_text text [] = text"
    by (simp add: tag_text_def tag_pieces_def)
  from 1 2 3 4 show ?thesis by blast
qed

theorem tag_text_round_trip_witness:
  "(\<exists>ps. tag_text ''March 2023 was dry'' [early_date] = concat (map render ps) \<and>
         concat (map piece_text ps) = ''March 2023 was dry'' \<and>
         filter is_tagged ps = map entity_piece [early_date]) \<and>
   tag_text ''March 2023 was dry'' [] = ''March 2023 was dry'' \<and>
   tag_text ''March 2023 was dry'' [early_date] =
     ''<Tag id='' @ [CHR 0x22] @ ''Date_Placeholder'' @ [CHR 0x22] @ ''>March 2023</Tag> was dry''"
proof -
  have "sorted (map start [early_date])" "non_overlapping [early_date]"
    by (simp_all add: non_overlapping_def)
  moreover have "\<forall>e\<in>set [early_date]. well_formed e \<and>
      text' e = slice ''March 2023 was dry'' (start e) (end' e)"
    by (simp add: well_formed_def early_date_def slice_def slice_index_def)
  ultimately have "(\<exists>ps. tag_text ''March 2023 was dry'' [early_date] = concat (map render ps) \<and>
         concat (map piece_text ps) = ''March 2023 was dry'' \<and>
         filter is_tagged ps = map entity_piece [early_date]) \<and>
      tag_text ''March 2023 was dry'' [] = ''March 2023 was dry''"
    by (rule tag_text_round_trip)
  moreover have "tag_text ''March 2023 was dry'' [early_date] =
     ''<Tag id='' @ [CHR 0x22] @ ''Date_Placeholder'' @ [CHR 0x22] @ ''>March 2023</Tag> was dry''"
    by (simp add: tag_text_def tag_pieces_def early_date_def slice_def slice_from_def
        slice_index_def)
  ultimately show ?thesis by blast
qed

section \<open>Properties of the subsection segmenter\<close>

lemma close_section_append:
  "close_section (pre @ subs) cur = pre @ close_section subs cur"
  by (cases cur) (simp_all add: close_section_def)

lemma close_section_split: "close_section subs cur = subs @ close_section [] cur"
  using close_section_append [of subs "[]" cur] by simp

lemma detect_loop_step:
  "detect_loop subs cur (p # ps) = detect_loop (subs @ emitted cur p) (next_section cur p) ps"
proof (cases "is_header (para_text p)")
  case True
  then show ?thesis
    using close_section_split [of subs cur] by (simp add: emitted_def next_section_def)
next
  case False
  show ?thesis
  proof (cases "gc_start cur (para_text p)")
    case True
    then show ?thesis
      using False close_section_split [of subs cur]
      by (simp add: emitted_def next_section_def gc_start_def going_concern_section_def)
  next
    case nogc: False
    show ?thesis
    proof (cases cur)
      case None
      then show ?thesis
        using False nogc
        by (simp add: emitted_def next_section_def gc_start_def operations_section_def)
    next
      case (Some c)
      then show ?thesis
        using False nogc
        by (auto simp add: emitted_def next_section_def gc_start_def)
    qed
  qed
qed

lemma detect_loop_prefix:
  "detect_loop subs cur ps = subs @ detect_loop [] cur ps"
proof (induction ps arbitrary: subs cur)
  case Nil
  then show ?case using close_section_split [of subs cur] by simp
next
  case (Cons p ps)
  have "detect_loop subs cur (p # ps) = (subs @ emitted cur p) @ detect_loop [] (next_section cur p) ps"
    unfolding detect_loop_step by (rule Cons.IH)
  also have "\<dots> = subs @ detect_loop (emitted cur p) (next_section cur p) ps"
    using Cons.IH [of "emitted cur p" "next_section cur p"] by simp
  also have "\<dots> = subs @ detect_loop [] cur (p # ps)"
    unfolding detect_loop_step [of "[]"] by simp
  finally show ?case .
qed

lemma concat_close_section:
  "concat (map paragraphs (close_section subs cur)) =
   concat (map paragraphs subs) @ open_paragraphs cur"
  by (cases cur) (simp_all add: close_section_def open_paragraphs_def)

lemma step_paragraphs:
  "concat (map paragraphs (emitted cur p)) @ open_paragraphs (next_section cur p) =
   open_paragraphs cur @ [p]"
proof (cases "is_header (para_text p)")
  case True
  then show ?thesis
    by (simp add: emitted_def next_section_def concat_close_section header_section_def
        open_paragraphs_def)
next
  case False
  show ?thesis
  proof (cases "gc_start cur (para_text p)")
    case True
    then show ?thesis
      using False
      by (simp add: emitted_def next_section_def concat_close_section
          going_concern_section_def open_paragraphs_def)
  next
    case nogc: False
    then show ?thesis
      using False
      by (cases cur)
         (simp_all add: emitted_def next_section_def operations_section_def open_paragraphs_def)
  qed
qed

lemma detect_loop_concat:
  "concat (map paragraphs (detect_loop subs cur ps)) =
   concat (map paragraphs subs) @ open_paragraphs cur @ ps"
proof (induction ps arbitrary: subs cur)
  case Nil
  then show ?case by (simp add: concat_close_section)
next
  case (Cons p ps)
  have "concat (map paragraphs (detect_loop subs cur (p # ps))) =
        concat (map paragraphs subs) @
        (concat (map paragraphs (emitted cur p)) @ open_paragraphs (next_section cur p)) @ ps"
    unfolding detect_loop_step Cons.IH by simp
  then show ?case unfolding step_paragraphs by simp
qed

lemma close_section_nonempty:
  assumes "\<forall>s\<in>set subs. paragraphs s \<noteq> []" and "section_nonempty cur"
  shows "\<forall>s\<in>set (close_section subs cur). paragraphs s \<noteq> []"
  using assms by (cases cur) (simp_all add: close_section_def section_nonempty_def)

lemma emitted_nonempty:
  assumes "section_nonempty cur"
  shows "\<forall>s\<in>set (emitted cur p). paragraphs s \<noteq> []"
  using close_section_nonempty [of "[]" cur] assms
  by (simp add: emitted_def header_section_def)

lemma next_section_nonempty: "section_nonempty (next_section cur p)"
  by (cases cur)
     (simp_all add: next_section_def section_nonempty_def going_concern_section_def
       operations_section_def)

lemma detect_loop_nonempty:
  assumes "\<forall>s\<in>set subs. paragraphs s \<noteq> []" and "section_nonempty cur"
  shows "\<forall>s\<in>set (detect_loop subs cur ps). paragraphs s \<noteq> []"
  using assms
proof (induction ps arbitrary: subs cur)
  case Nil
  then show ?case using close_section_nonempty [of subs cur] by simp
next
  case (Cons p ps)
  have "\<forall>s\<in>set (subs @ emitted cur p). paragraphs s \<noteq> []"
    using Cons.prems(1) emitted_nonempty [OF Cons.prems(2), of p] by auto
  from Cons.IH [OF this next_section_nonempty]
  show ?case unfolding detect_loop_step .
qed

text \<open>
  C6. For every input paragraph sequence, the concatenation of the subsections' paragraph
  sequences, in emission order, is the input sequence (so every paragraph is in exactly
  one subsection, in input order); every emitted subsection has a non-empty paragraph
  sequence; and the empty input yields no subsection.
\<close>

theorem detect_subsections_coverage:
  "concat (map paragraphs (detect_subsections ps)) = ps \<and>
   (\<forall>s\<in>set (detect_subsections ps). paragraphs s \<noteq> []) \<and>
   detect_subsections [] = []"
proof -
  have "concat (map paragraphs (detect_subsections ps)) = ps"
    by (simp add: detect_subsections_def detect_loop_concat open_paragraphs_def)
  moreover have "\<forall>s\<in>set (detect_subsections ps). paragraphs s \<noteq> []"
    unfolding detect_subsections_def
    by (rule detect_loop_nonempty) (simp_all add: section_nonempty_def)
  moreover have "detect_subsections [] = []"
    by (simp add: detect_subsections_def close_section_def)
  ultimately show ?thesis by simp
qed

lemma detect_loop_header_split:
  assumes "is_header (para_text p)"
  shows "detect_loop [] cur (xs @ p # ys) =
         detect_loop [] cur xs @ [header_section p] @ detect_loop [] None ys"
proof (induction xs arbitrary: cur)
  case Nil
  have "detect_loop [] cur (p # ys) =
        (close_section [] cur @ [header_section p]) @ detect_loop [] None ys"
    unfolding detect_loop_step
    using assms detect_loop_prefix [of "close_section [] cur @ [header_section p]" None ys]
    by (simp add: emitted_def next_section_def)
  then show ?case by simp
next
  case (Cons x xs)
  have 1: "detect_loop [] cur ((x # xs) @ p # ys) =
        emitted cur x @ detect_loop [] (next_section cur x) (xs @ p # ys)"
    using detect_loop_step [of "[]" cur x "xs @ p # ys"]
          detect_loop_prefix [of "emitted cur x" "next_section cur x" "xs @ p # ys"]
    by simp
  have 2: "detect_loop [] cur (x # xs) = emitted cur x @ detect_loop [] (next_section cur x) xs"
    using detect_loop_step [of "[]" cur x xs]
          detect_loop_prefix [of "emitted cur x" "next_section cur x" xs]
    by simp
  show ?case unfolding 1 2 Cons.IH by simp
qed

section \<open>Properties of the matcher\<close>

lemma advance_0: "advance 0 st = st"
  by (cases st) (simp add: advance_def)

lemma advance_Suc_Cons:
  "advance (Suc k) (prev, c # cs, i, g) = advance k (Some c, cs, Suc i, g)"
  by (cases k) (simp_all add: advance_def)

lemma rep_one_char_iff:
  fixes f :: "cursor \<Rightarrow> cursor list"
  assumes f: "\<And>prev s i g. f (prev, s, i, g) =
      (case s of [] \<Rightarrow> [] | c # cs \<Rightarrow> if p c then [(Some c, cs, Suc i, g)] else [])"
  shows "x \<in> set (rep f greedy lo hi (prev, s, i, g)) \<longleftrightarrow>
   (\<exists>k. lo \<le> k \<and> k \<le> hi \<and> k \<le> length s \<and> (\<forall>c\<in>set (take k s). p c) \<and>
        x = advance k (prev, s, i, g))"
proof (induction hi arbitrary: lo prev s i)
  case 0
  show ?case by (auto simp: advance_0)
next
  case (Suc hi)
  let ?st = "(prev, s, i, g)"
  let ?R = "\<lambda>lo hi prev s i. \<exists>k. lo \<le> k \<and> k \<le> hi \<and> k \<le> length s \<and>
        (\<forall>c\<in>set (take k s). p c) \<and> x = advance k (prev, s, i, g)"
  have split: "x \<in> set (rep f greedy lo (Suc hi) ?st) \<longleftrightarrow>
        (lo = 0 \<and> x = ?st) \<or>
        (\<exists>y\<in>set (f ?st). x \<in> set (rep f greedy (lo - 1) hi y))"
    by (auto simp: Let_def)
  show ?case
  proof (cases s)
    case Nil
    then have "x \<in> set (rep f greedy lo (Suc hi) ?st) \<longleftrightarrow> lo = 0 \<and> x = ?st"
      unfolding split by (simp add: f)
    also have "\<dots> \<longleftrightarrow> ?R lo (Suc hi) prev s i"
      using Nil by (auto simp: advance_0)
    finally show ?thesis .
  next
    case (Cons c cs)
    show ?thesis
    proof (cases "p c")
      case False
      then have "x \<in> set (rep f greedy lo (Suc hi) ?st) \<longleftrightarrow> lo = 0 \<and> x = ?st"
        unfolding split using Cons by (simp add: f)
      also have "\<dots> \<longleftrightarrow> ?R lo (Suc hi) prev s i"
      proof
        assume "lo = 0 \<and> x = ?st"
        then show "?R lo (Suc hi) prev s i" by (intro exI [of _ 0]) (simp add: advance_0)
      next
        assume "?R lo (Suc hi) prev s i"
        then obtain k where k: "lo \<le> k" "\<forall>c\<in>set (take k s). p c" "x = advance k ?st"
          by blast
        have "k = 0"
        proof (rule ccontr)
          assume "k \<noteq> 0"
          then obtain k' where "k = Suc k'" by (cases k) auto
          with k(2) Cons False show False by simp
        qed
        with k show "lo = 0 \<and> x = ?st" by (simp add: advance_0)
      qed
      finally show ?thesis .
    next
      case True
      have "x \<in> set (rep f greedy lo (Suc hi) ?st) \<longleftrightarrow>
            (lo = 0 \<and> x = ?st) \<or> ?R (lo - 1) hi (Some c) cs (Suc i)"
        unfolding split using Cons True Suc.IH [of "lo - 1" "Some c" cs "Suc i"] by (simp add: f)
      also have "\<dots> \<longleftrightarrow> ?R lo (Suc hi) prev s i"
      proof
        assume "(lo = 0 \<and> x = ?st) \<or> ?R (lo - 1) hi (Some c) cs (Suc i)"
        then show "?R lo (Suc hi) prev s i"
        proof
          assume "lo = 0 \<and> x = ?st"
          then show ?thesis by (intro exI [of _ 0]) (simp add: advance_0)
        next
          assume "?R (lo - 1) hi (Some c) cs (Suc i)"
          then obtain k where k: "lo - 1 \<le> k" "k \<le> hi" "k \<le> length cs"
            "\<forall>c\<in>set (take k cs). p c" "x = advance k (Some c, cs, Suc i, g)"
            by blast
          show ?thesis
            using k True Cons by (intro exI [of _ "Suc k"]) (auto simp: advance_Suc_Cons)
        qed
      next
        assume "?R lo (Suc hi) prev s i"
        then obtain k where k: "lo \<le> k" "k \<le> Suc hi" "k \<le> length s"
            "\<forall>c\<in>set (take k s). p c" "x = advance k ?st"
          by blast
        show "(lo = 0 \<and> x = ?st) \<or> ?R (lo - 1) hi (Some c) cs (Suc i)"
        proof (cases k)
          case 0
          with k show ?thesis by (simp add: advance_0)
        next
          case (Suc k')
          have "?R (lo - 1) hi (Some c) cs (Suc i)"
            using k Suc Cons by (intro exI [of _ k']) (auto simp: advance_Suc_Cons)
          then show ?thesis ..
        qed
      qed
      finally show ?thesis .
    qed
  qed
qed

lemma rep_sym_iff:
  "x \<in> set (rep (rmatch (Sym p)) greedy lo hi (prev, s, i, g)) \<longleftrightarrow>
   (\<exists>k. lo \<le> k \<and> k \<le> hi \<and> k \<le> length s \<and> (\<forall>c\<in>set (take k s). p c) \<and>
        x = advance k (prev, s, i, g))"
  by (rule rep_one_char_iff) simp

lemma digit_not_dot: "is_digit d \<Longrightarrow> d \<noteq> CHR ''.''"
  by (auto simp: is_digit_def ord_def)

lemma concat_map_nonempty: "concat (map f xs) \<noteq> [] \<longleftrightarrow> (\<exists>x\<in>set xs. f x \<noteq> [])"
  by (induction xs) auto

lemma lit_matches: "rmatch (lit c) (prev, s, i, g) \<noteq> [] \<longleftrightarrow> (\<exists>rest. s = c # rest)"
  by (cases s) (simp_all add: lit_def)

lemma rep_sym_ex:
  "(\<exists>x\<in>set (rep (rmatch (Sym p)) greedy lo hi (prev, s, i, g)). Q x) \<longleftrightarrow>
   (\<exists>k. lo \<le> k \<and> k \<le> hi \<and> k \<le> length s \<and> (\<forall>c\<in>set (take k s). p c) \<and>
        Q (advance k (prev, s, i, g)))"
proof
  assume "\<exists>x\<in>set (rep (rmatch (Sym p)) greedy lo hi (prev, s, i, g)). Q x"
  then obtain x where x: "x \<in> set (rep (rmatch (Sym p)) greedy lo hi (prev, s, i, g))" and q: "Q x"
    by blast
  from x [unfolded rep_sym_iff] obtain k where
    "lo \<le> k \<and> k \<le> hi \<and> k \<le> length s \<and> (\<forall>c\<in>set (take k s). p c) \<and>
       x = advance k (prev, s, i, g)"
    by blast
  with q show "\<exists>k. lo \<le> k \<and> k \<le> hi \<and> k \<le> length s \<and> (\<forall>c\<in>set (take k s). p c) \<and>
        Q (advance k (prev, s, i, g))"
    by blast
next
  assume "\<exists>k. lo \<le> k \<and> k \<le> hi \<and> k \<le> length s \<and> (\<forall>c\<in>set (take k s). p c) \<and>
        Q (advance k (prev, s, i, g))"
  then obtain k where k: "lo \<le> k \<and> k \<le> hi \<and> k \<le> length s \<and> (\<forall>c\<in>set (take k s). p c)"
    and q: "Q (advance k (prev, s, i, g))"
    by blast
  from k have "advance k (prev, s, i, g) \<in> set (rep (rmatch (Sym p)) greedy lo hi (prev, s, i, g))"
    unfolding rep_sym_iff by blast
  with q show "\<exists>x\<in>set (rep (rmatch (Sym p)) greedy lo hi (prev, s, i, g)). Q x"
    by blast
qed

lemma lit_matches_advance:
  "rmatch (lit c) (advance k (prev, s, i, g)) \<noteq> [] \<longleftrightarrow> (\<exists>rest. drop k s = c # rest)"
  unfolding advance_def prod.case by (rule lit_matches)

lemma header_pattern_matches:
  "re_match HEADER_PATTERN text \<noteq> None \<longleftrightarrow>
   (\<exists>ds rest. text = ds @ CHR ''.'' # rest \<and> ds \<noteq> [] \<and> (\<forall>d\<in>set ds. is_digit d))"
proof -
  let ?st = "(None, text, 0, None) :: cursor"
  let ?digits = "rep (rmatch (Sym is_digit)) True 1 (length text) ?st"
  have m: "rmatch HEADER_PATTERN ?st = concat (map (rmatch (lit (CHR ''.''))) ?digits)"
    by (simp add: HEADER_PATTERN_def plus_def)
  have 1: "re_match HEADER_PATTERN text \<noteq> None \<longleftrightarrow> rmatch HEADER_PATTERN ?st \<noteq> []"
    unfolding re_match_def match_at_def by (cases "rmatch HEADER_PATTERN ?st") auto
  have 2: "rmatch HEADER_PATTERN ?st \<noteq> [] \<longleftrightarrow>
      (\<exists>k. 1 \<le> k \<and> k \<le> length text \<and> k \<le> length text \<and>
           (\<forall>c\<in>set (take k text). is_digit c) \<and> (\<exists>rest. drop k text = CHR ''.'' # rest))"
    unfolding m concat_map_nonempty rep_sym_ex lit_matches_advance ..
  have 3: "(\<exists>k. 1 \<le> k \<and> k \<le> length text \<and> k \<le> length text \<and>
           (\<forall>c\<in>set (take k text). is_digit c) \<and> (\<exists>rest. drop k text = CHR ''.'' # rest)) \<longleftrightarrow>
      (\<exists>ds rest. text = ds @ CHR ''.'' # rest \<and> ds \<noteq> [] \<and> (\<forall>d\<in>set ds. is_digit d))"
  proof
    assume "\<exists>k. 1 \<le> k \<and> k \<le> length text \<and> k \<le> length text \<and>
           (\<forall>c\<in>set (take k text). is_digit c) \<and> (\<exists>rest. drop k text = CHR ''.'' # rest)"
    then obtain k rest where k: "1 \<le> k" "k \<le> length text"
        "\<forall>c\<in>set (take k text). is_digit c" "drop k text = CHR ''.'' # rest"
      by blast
    have "take k text @ drop k text = text" by (rule append_take_drop_id)
    then have "text = take k text @ CHR ''.'' # rest" unfolding k(4) by simp
    moreover have "take k text \<noteq> []" using k(1,2) by (cases "text") auto
    ultimately show "\<exists>ds rest. text = ds @ CHR ''.'' # rest \<and> ds \<noteq> [] \<and> (\<forall>d\<in>set ds. is_digit d)"
      using k(3) by blast
  next
    assume "\<exists>ds rest. text = ds @ CHR ''.'' # rest \<and> ds \<noteq> [] \<and> (\<forall>d\<in>set ds. is_digit d)"
    then obtain ds rest where t: "text = ds @ CHR ''.'' # rest" "ds \<noteq> []" "\<forall>d\<in>set ds. is_digit d"
      by blast
    have "1 \<le> length ds" using t(2) by (cases ds) auto
    moreover have "length ds \<le> length text" using t(1) by simp
    moreover have "\<forall>c\<in>set (take (length ds) text). is_digit c" using t(1,3) by simp
    moreover have "drop (length ds) text = CHR ''.'' # rest" using t(1) by simp
    ultimately show "\<exists>k. 1 \<le> k \<and> k \<le> length text \<and> k \<le> length text \<and>
           (\<forall>c\<in>set (take k text). is_digit c) \<and> (\<exists>rest. drop k text = CHR ''.'' # rest)"
      by blast
  qed
  show ?thesis unfolding 1 2 3 ..
qed



























section \<open>The header rule\<close>

lemma uppercase_ratio_half:
  "uppercase_ratio c > 1 / 2 \<longleftrightarrow> 2 * length (filter isupper c) > length c"
proof (cases c)
  case Nil
  then show ?thesis by (simp add: uppercase_ratio_def)
next
  case (Cons x xs)
  define a where "a = length (filter isupper c)"
  define n where "n = length c"
  have n: "0 < n" "max n 1 = n" using Cons by (simp_all add: n_def)
  have r: "uppercase_ratio c = of_nat a / of_nat n"
    unfolding uppercase_ratio_def a_def n_def using n(2) [unfolded n_def] by simp
  have "(1 / 2 < (of_nat a :: rat) / of_nat n) \<longleftrightarrow> (of_nat n :: rat) < of_nat (2 * a)"
    using n(1) by (simp add: field_simps)
  also have "\<dots> \<longleftrightarrow> n < 2 * a" by (rule of_nat_less_iff)
  finally have "uppercase_ratio c > 1 / 2 \<longleftrightarrow> n < 2 * a" unfolding r .
  then show ?thesis unfolding a_def n_def .
qed

lemma after_first_dot_digits:
  assumes "\<forall>d\<in>set ds. is_digit d"
  shows "after_first_dot (ds @ CHR ''.'' # rest) = rest"
proof -
  have "dropWhile (\<lambda>c. c \<noteq> CHR ''.'') (ds @ CHR ''.'' # rest) = CHR ''.'' # rest"
    using assms digit_not_dot by (simp add: dropWhile_append3)
  then show ?thesis by (simp add: after_first_dot_def)
qed

lemma is_header_spec: "is_header paragraph_text \<longleftrightarrow> header_spec paragraph_text"
proof
  assume h: "is_header paragraph_text"
  let ?t = "strip paragraph_text"
  from h have m: "re_match HEADER_PATTERN ?t \<noteq> None"
    by (auto simp: is_header_def Let_def split: if_splits)
  then obtain ds rest where t: "?t = ds @ CHR ''.'' # rest" "ds \<noteq> []" "\<forall>d\<in>set ds. is_digit d"
    unfolding header_pattern_matches by blast
  have dot: "CHR ''.'' \<in> set ?t" using t(1) by simp
  have "after_first_dot ?t = rest" unfolding t(1) by (rule after_first_dot_digits [OF t(3)])
  with h m dot have "uppercase_ratio (strip rest) > 1 / 2"
    by (simp add: is_header_def Let_def)
  then have "2 * length (filter isupper (strip rest)) > length (strip rest)"
    unfolding uppercase_ratio_half .
  with t show "header_spec paragraph_text" unfolding header_spec_def by blast
next
  assume "header_spec paragraph_text"
  let ?t = "strip paragraph_text"
  from \<open>header_spec paragraph_text\<close> obtain ds rest where
    t: "?t = ds @ CHR ''.'' # rest" "ds \<noteq> []" "\<forall>d\<in>set ds. is_digit d"
    and "2 * length (filter isupper (strip rest)) > length (strip rest)"
    unfolding header_spec_def by blast
  then have u: "uppercase_ratio (strip rest) > 1 / 2"
    unfolding uppercase_ratio_half by simp
  have m: "re_match HEADER_PATTERN ?t \<noteq> None"
    unfolding header_pattern_matches using t by blast
  have dot: "CHR ''.'' \<in> set ?t" using t(1) by simp
  have "after_first_dot ?t = rest" unfolding t(1) by (rule after_first_dot_digits [OF t(3)])
  with m dot u show "is_header paragraph_text"
    by (simp add: is_header_def Let_def)
qed

lemma header_example: "is_header ''1. NATURE OF OPERATIONS''"
  by code_simp

lemma not_header_examples:
  "\<not> is_header ''BestCo Ltd. was incorporated in 2011.''"
  "\<not> is_header ''There is a material uncertainty.''"
  "\<not> is_header ''1. Nature of operations''"
  by code_simp+

text \<open>
  C7. A paragraph is a header iff its trimmed text is a non-empty run of digits, a dot,
  and a content (trimmed) of which more than half the characters are upper case. A header
  paragraph becomes a subsection of its own, of class Header, with \<open>skip_tagging\<close> true,
  and closes the section open before it: the output for a sequence with a header in it is
  the output for the paragraphs before it, then the header's subsection, then the output
  for the paragraphs after it. The paragraph "1. NATURE OF OPERATIONS" is a header and,
  alone, gives one Header subsection with \<open>skip_tagging\<close> true.
\<close>

theorem header_handling:
  "(is_header t \<longleftrightarrow> header_spec t) \<and>
   (is_header (para_text p) \<longrightarrow>
      detect_subsections (xs @ p # ys) =
        detect_subsections xs @
        [\<lparr>sub_tag_id = ''NatureOfOperationsAndGoingConcernHeader'', paragraphs = [p],
          skip_tagging = Some True\<rparr>] @
        detect_subsections ys) \<and>
   is_header ''1. NATURE OF OPERATIONS'' \<and>
   detect_subsections [\<lparr>para_text = ''1. NATURE OF OPERATIONS'', block_index = b\<rparr>] =
     [\<lparr>sub_tag_id = ''NatureOfOperationsAndGoingConcernHeader'',
       paragraphs = [\<lparr>para_text = ''1. NATURE OF OPERATIONS'', block_index = b\<rparr>],
       skip_tagging = Some True\<rparr>]"
proof -
  have hs: "header_section q =
      \<lparr>sub_tag_id = ''NatureOfOperationsAndGoingConcernHeader'', paragraphs = [q],
       skip_tagging = Some True\<rparr>" for q
    by (simp add: header_section_def tag_of_def TAG_IDS_def)
  have split: "detect_subsections (xs @ p # ys) =
      detect_subsections xs @ [header_section p] @ detect_subsections ys"
    if "is_header (para_text p)"
    unfolding detect_subsections_def by (rule detect_loop_header_split [OF that])
  have alone: "detect_subsections [\<lparr>para_text = ''1. NATURE OF OPERATIONS'', block_index = b\<rparr>] =
      [header_section \<lparr>para_text = ''1. NATURE OF OPERATIONS'', block_index = b\<rparr>]"
    using header_example by (simp add: detect_subsections_def close_section_def)
  from is_header_spec [of t] split alone header_example show ?thesis
    unfolding hs by simp
qed

theorem header_handling_witness:
  "header_spec ''1. NATURE OF OPERATIONS'' \<and>
   detect_subsections [company_para, header_para, uncertainty_para] =
     detect_subsections [company_para] @
     [\<lparr>sub_tag_id = ''NatureOfOperationsAndGoingConcernHeader'', paragraphs = [header_para],
       skip_tagging = Some True\<rparr>] @
     detect_subsections [uncertainty_para]"
proof -
  have h: "is_header (para_text header_para)"
    using header_example by (simp add: header_para_def)
  from header_handling [of "''1. NATURE OF OPERATIONS''" header_para "[company_para]"
      "[uncertainty_para]" "''1''"] h
  have "header_spec ''1. NATURE OF OPERATIONS''"
    and "detect_subsections ([company_para] @ header_para # [uncertainty_para]) =
       detect_subsections [company_para] @
       [\<lparr>sub_tag_id = ''NatureOfOperationsAndGoingConcernHeader'', paragraphs = [header_para],
         skip_tagging = Some True\<rparr>] @
       detect_subsections [uncertainty_para]"
    by blast+
  then show ?thesis by simp
qed

theorem detect_subsections_coverage_witness:
  "concat (map paragraphs (detect_subsections [header_para, company_para, uncertainty_para])) =
     [header_para, company_para, uncertainty_para] \<and>
   detect_subsections [] = [] \<and>
   map sub_tag_id (detect_subsections [header_para, company_para, uncertainty_para]) =
     [''NatureOfOperationsAndGoingConcernHeader'',
      ''DescriptionOfNatureOfEntitysOperationsAndPrincipalActivities'',
      ''DescriptionOfUncertaintiesOfEntitysAbilityToContinueAsGoingConcern'']"
proof -
  have "should_start_going_concern (para_text uncertainty_para)"
    "\<not> should_start_going_concern (para_text company_para)"
    by (simp_all add: should_start_going_concern_def uncertainty_para_def company_para_def
        lower_def lower_char_def isupper_def is_AZ_def ord_def)
  then have "map sub_tag_id (detect_subsections [header_para, company_para, uncertainty_para]) =
     [''NatureOfOperationsAndGoingConcernHeader'',
      ''DescriptionOfNatureOfEntitysOperationsAndPrincipalActivities'',
      ''DescriptionOfUncertaintiesOfEntitysAbilityToContinueAsGoingConcern'']"
    using header_example not_header_examples(1,2)
    by (simp add: detect_subsections_def close_section_def header_section_def tag_of_def
        TAG_IDS_def header_para_def uncertainty_para_def company_para_def)
  with detect_subsections_coverage [of "[header_para, company_para, uncertainty_para]"]
  show ?thesis by simp
qed

section \<open>Properties of the extractors\<close>






lemma s1_inc: "extract_incorporation_dates scenario_1 = []"
  by code_simp

lemma s1_addr: "extract_addresses scenario_1 = []"
  by code_simp

lemma s1_sym: "extract_trading_symbols scenario_1 = []"
  by code_simp

lemma s1_comp: "extract_company_names_regex scenario_1 = []"
  by code_simp

lemma s1_amt: "extract_amounts scenario_1 = []"
  by code_simp

lemma s1_con: "extract_financial_concepts scenario_1 = []"
  by code_simp

lemma s1_dates:
  "extract_dates scenario_1 =
     [\<lparr>start = 16, end' = 32, tag_id = ''Date_Placeholder'', text' = ''January 24, 2011'',
       priority = 50\<rparr>,
      \<lparr>start = 28, end' = 32, tag_id = ''Date_Placeholder'', text' = ''2011'',
       priority = 50\<rparr>,
      \<lparr>start = 45, end' = 49, tag_id = ''Date_Placeholder'', text' = ''2011'',
       priority = 50\<rparr>]"
  by code_simp

lemma s1_resolved:
  "remove_overlaps (extract_dates scenario_1) =
     [\<lparr>start = 16, end' = 32, tag_id = ''Date_Placeholder'', text' = ''January 24, 2011'',
       priority = 50\<rparr>,
      \<lparr>start = 45, end' = 49, tag_id = ''Date_Placeholder'', text' = ''2011'',
       priority = 50\<rparr>]"
  unfolding s1_dates by (simp add: remove_overlaps_def overlap_key_def)

text \<open>
  C5. On the text of scenario 1 the incorporation-date extractor finds nothing, since the
  text has "incorporated on" without the "was" that \<open>INCORPORATION_CONTEXT\<close> asks for;
  extraction and overlap resolution give two general-date spans, "January 24, 2011" and
  the second "2011", and no IncorporationDate span.
\<close>

theorem scenario_1_result:
  "extract_incorporation_dates scenario_1 = [] \<and>
   remove_overlaps (extract_incorporation_dates scenario_1 @ extract_dates scenario_1) =
     [\<lparr>start = 16, end' = 32, tag_id = ''Date_Placeholder'', text' = ''January 24, 2011'',
       priority = 50\<rparr>,
      \<lparr>start = 45, end' = 49, tag_id = ''Date_Placeholder'', text' = ''2011'',
       priority = 50\<rparr>] \<and>
   extract_entities fallback_tagger scenario_1 =
     Inr [\<lparr>start = 16, end' = 32, tag_id = ''Date_Placeholder'', text' = ''January 24, 2011'',
           priority = 50\<rparr>,
          \<lparr>start = 45, end' = 49, tag_id = ''Date_Placeholder'', text' = ''2011'',
           priority = 50\<rparr>]"
proof -
  have h: "extract_company_names_hybrid fallback_tagger scenario_1 = Inr []"
    by (simp add: extract_company_names_hybrid_def fallback_tagger_def is_available_def s1_comp)
  have "extract_entities fallback_tagger scenario_1 =
      Inr (sort_key start (remove_overlaps (extract_dates scenario_1)))"
    by (simp add: extract_entities_def h s1_inc s1_addr s1_sym s1_amt s1_con)
  then show ?thesis unfolding s1_resolved by (simp add: s1_inc s1_resolved)
qed

text \<open>
  C8. With a provider whose model finds the organisation "BestCo Ltd.",
  \<open>extract_organizations\<close> raises AttributeError where the claim has it return that
  entity, and the tagger's \<open>extract_entities\<close> raises with it; in general it returns
  (the empty list) exactly when \<open>extract_entities\<close> of the provider finds nothing.
\<close>

theorem extract_organizations_raises:
  "extract_organizations bestco_ner ''BestCo Ltd. was incorporated in 2011.'' =
     Inl AttributeError \<and>
   filter (\<lambda>e. label e = ''ORG'')
     (ner_extract_entities bestco_ner ''BestCo Ltd. was incorporated in 2011.'') =
     [\<lparr>ner_text = ''BestCo Ltd.'', label = ''ORG'', ner_start = 0, ner_end = 11\<rparr>] \<and>
   extract_entities \<lparr>use_ner = True, ner = Some bestco_ner\<rparr>
     ''BestCo Ltd. was incorporated in 2011.'' = Inl AttributeError \<and>
   extract_organizations provider text =
     (if ner_extract_entities provider text = [] then Inr [] else Inl AttributeError)"
proof -
  have g: "extract_organizations provider text =
     (if ner_extract_entities provider text = [] then Inr [] else Inl AttributeError)"
    by (cases "ner_extract_entities provider text") (simp_all add: extract_organizations_def)
  have c: "extract_organizations bestco_ner ''BestCo Ltd. was incorporated in 2011.'' =
       Inl AttributeError \<and>
     filter (\<lambda>e. label e = ''ORG'')
       (ner_extract_entities bestco_ner ''BestCo Ltd. was incorporated in 2011.'') =
       [\<lparr>ner_text = ''BestCo Ltd.'', label = ''ORG'', ner_start = 0, ner_end = 11\<rparr>] \<and>
     extract_entities \<lparr>use_ner = True, ner = Some bestco_ner\<rparr>
       ''BestCo Ltd. was incorporated in 2011.'' = Inl AttributeError"
    by (simp add: extract_organizations_def ner_extract_entities_def bestco_ner_def
        bestco_model_def relevant_labels_def extract_entities_def
        extract_company_names_hybrid_def extract_company_names_ner_def is_available_def)
  from g c show ?thesis by simp
qed

end
